theory Spec2Isabelle
  imports Main
begin

section \<open>JSON values as the Python program sees them\<close>

text \<open>
  \<^verbatim>\<open>json.loads\<close> turns a line into \<^verbatim>\<open>None\<close>, a bool, an int, a float, a str, a list or
  a dict. Floating-point numbers stay opaque (\<open>pyfloat\<close>): nothing in the program
  computes with them, they are only carried and printed. A dict is an association
  list in insertion order; the dicts built by \<^verbatim>\<open>json.loads\<close> have pairwise distinct
  keys. Python's \<^verbatim>\<open>None\<close> and JSON's \<^verbatim>\<open>null\<close> are the same value, \<open>JNull\<close>.
\<close>

typedecl pyfloat

datatype json =
    JNull
  | JBool bool
  | JInt int
  | JFloat pyfloat
  | JStr string
  | JList "json list"
  | JObj "(string \<times> json) list"

fun is_obj :: "json \<Rightarrow> bool" where
  "is_obj (JObj d) = True"
| "is_obj v = False"

fun is_list :: "json \<Rightarrow> bool" where
  "is_list (JList xs) = True"
| "is_list v = False"

subsection \<open>Python dicts in insertion order\<close>

text \<open>\<^verbatim>\<open>d[k] = v\<close>: an existing key keeps its position and takes the new value, a new key
  goes to the end.\<close>

fun dict_set :: "(string \<times> 'v) list \<Rightarrow> string \<Rightarrow> 'v \<Rightarrow> (string \<times> 'v) list" where
  "dict_set [] k v = [(k, v)]"
| "dict_set ((k', v') # d) k v =
     (if k' = k then (k', v) # d else (k', v') # dict_set d k v)"

text \<open>\<^verbatim>\<open>dict(items)\<close>: the pairs are stored one after the other.\<close>

definition dict :: "(string \<times> 'v) list \<Rightarrow> (string \<times> 'v) list" where
  "dict items = foldl (\<lambda>d (k, v). dict_set d k v) [] items"

definition keys :: "(string \<times> 'v) list \<Rightarrow> string list" where
  "keys d = map fst d"

subsection \<open>Exceptions\<close>

text \<open>
  Every exception the program can end in. The four with a message of the program's own
  are the \<^verbatim>\<open>raise Exception(...)\<close> statements of \<^verbatim>\<open>persist_lines\<close>; the others are
  raised by Python or the libraries. \<open>OutsideModel\<close> is not an exception: stream names
  are strings in the message format, and the model stops there when a message carries a
  number, a bool or \<^verbatim>\<open>null\<close> as its stream, where Python would go on and use it as a
  dict key.
\<close>

datatype error =
    JSONDecodeError
  | MissingRequiredKey string
  | RecordBeforeSchema string
  | KeyPropertiesRequired
  | UnknownMessageType json
  | KeyError string
  | TypeError
  | AttributeError
  | ValidationError
  | CsvError
  | OutsideModel

subsection \<open>The runtime the program calls into\<close>

text \<open>
  The behaviour of the libraries is taken as a parameter:
  \<^item> \<open>new_validator schema\<close>: the exception that \<^verbatim>\<open>Draft4Validator(schema)\<close> raises,
    \<open>None\<close> when it returns a validator (kept in the model as the schema it was built
    from);
  \<^item> \<open>validate schema instance\<close>: the exception that \<^verbatim>\<open>.validate(instance)\<close> raises
    on the validator built from the schema, \<open>None\<close> when it accepts the instance;
  \<^item> \<open>repr_str\<close>, \<open>repr_float\<close>: Python's \<^verbatim>\<open>repr\<close> of a str and of a float;
  \<^item> \<open>csv_first_row delimiter quotechar content\<close>: what \<^verbatim>\<open>next(reader)\<close> gives
    for a \<^verbatim>\<open>csv.reader\<close> on a file with that content, which is not empty: the fields
    of its first row, or an exception;
  \<^item> \<open>csv_row delimiter quotechar fields\<close>: the text that \<^verbatim>\<open>csv.writer\<close> writes for
    one row of fields that are strs, line terminator included.
\<close>

record runtime =
  new_validator :: "json \<Rightarrow> error option"
  validate :: "json \<Rightarrow> json \<Rightarrow> error option"
  repr_str :: "string \<Rightarrow> string"
  repr_float :: "pyfloat \<Rightarrow> string"
  csv_first_row :: "char \<Rightarrow> char \<Rightarrow> string \<Rightarrow> error + string list"
  csv_row :: "char \<Rightarrow> char \<Rightarrow> string list \<Rightarrow> string"

text \<open>Decimal digits of a natural number, and Python's \<^verbatim>\<open>repr\<close> of an int.\<close>

definition digit :: "nat \<Rightarrow> char" where
  "digit n = ''0123456789'' ! (n mod 10)"

function dec_nat :: "nat \<Rightarrow> string" where
  "dec_nat n = (if n < 10 then [digit n] else dec_nat (n div 10) @ [digit n])"
  by pat_completeness auto
termination
  by (relation "measure (\<lambda>n. n)") auto

definition repr_int :: "int \<Rightarrow> string" where
  "repr_int i = (if i < 0 then ''-'' @ dec_nat (nat (- i)) else dec_nat (nat i))"

text \<open>\<^verbatim>\<open>sep.join(xs)\<close>\<close>

fun join :: "string \<Rightarrow> string list \<Rightarrow> string" where
  "join sep [] = []"
| "join sep [x] = x"
| "join sep (x # y # ys) = x @ sep @ join sep (y # ys)"

text \<open>Python's \<^verbatim>\<open>repr\<close> of a value built by \<^verbatim>\<open>json.loads\<close>.\<close>

fun py_repr :: "runtime \<Rightarrow> json \<Rightarrow> string" where
  "py_repr rt JNull = ''None''"
| "py_repr rt (JBool b) = (if b then ''True'' else ''False'')"
| "py_repr rt (JInt i) = repr_int i"
| "py_repr rt (JFloat f) = repr_float rt f"
| "py_repr rt (JStr s) = repr_str rt s"
| "py_repr rt (JList xs) = ''['' @ join '', '' (map (py_repr rt) xs) @ '']''"
| "py_repr rt (JObj d) =
     ''{'' @ join '', '' (map (\<lambda>(k, v). repr_str rt k @ '': '' @ py_repr rt v) d) @ ''}''"

text \<open>\<^verbatim>\<open>str(v)\<close>: a str is itself, every other value prints as its \<^verbatim>\<open>repr\<close>.\<close>

definition py_str :: "runtime \<Rightarrow> json \<Rightarrow> string" where
  "py_str rt v = (case v of JStr s \<Rightarrow> s | _ \<Rightarrow> py_repr rt v)"

section \<open>flatten\<close>

text \<open>
  \<^verbatim>\<open>
  def flatten(d, parent_key='', sep='__'):
      items = []
      for k, v in d.items():
          new_key = parent_key + sep + k if parent_key else k
          if isinstance(v, collections.MutableMapping):
              items.extend(flatten(v, new_key, sep=sep).items())
          else:
              items.append((new_key, str(v) if type(v) is list else v))
      return dict(items)
  \<close>
  \<open>flatten_items\<close> is the loop: it returns the list \<^verbatim>\<open>items\<close> built from the pairs of
  \<^verbatim>\<open>d\<close> in order.
\<close>

function flatten :: "runtime \<Rightarrow> (string \<times> json) list \<Rightarrow> string \<Rightarrow> string \<Rightarrow> (string \<times> json) list"
  and flatten_items :: "runtime \<Rightarrow> (string \<times> json) list \<Rightarrow> string \<Rightarrow> string \<Rightarrow> (string \<times> json) list"
where
  "flatten rt d parent_key sep = dict (flatten_items rt d parent_key sep)"
| "flatten_items rt [] parent_key sep = []"
| "flatten_items rt ((k, v) # rest) parent_key sep =
     (let new_key = (if parent_key \<noteq> [] then parent_key @ sep @ k else k) in
      (case v of
         JObj d' \<Rightarrow> flatten rt d' new_key sep
       | _ \<Rightarrow> [(new_key, if is_list v then JStr (py_str rt v) else v)])
      @ flatten_items rt rest parent_key sep)"
  by pat_completeness auto
termination
  by (relation "measure (\<lambda>x. case x of
        Inl (rt, d, p, s) \<Rightarrow> Suc (size_list (size_prod (\<lambda>_. 0) size) d)
      | Inr (rt, d, p, s) \<Rightarrow> size_list (size_prod (\<lambda>_. 0) size) d)") auto

section \<open>persist_lines\<close>

text \<open>
  The parameters and local variables of \<^verbatim>\<open>persist_lines\<close>, and the files of the
  working directory. A file is its content, the text that \<^verbatim>\<open>open(filename, 'r')\<close>
  reads; a file of size zero has the empty content, and \<^verbatim>\<open>open(filename, 'a')\<close> puts
  what is written at the end of the content, whatever the content ends with.
\<close>

record pstate =
  filename :: "string option"
  delimiter :: char
  quotechar :: char
  state :: json
  schemas :: "string \<rightharpoonup> json"
  key_properties :: "string \<rightharpoonup> json"
  headers :: "string \<rightharpoonup> string list"
  validators :: "string \<rightharpoonup> json"
  files :: "string \<rightharpoonup> string"

text \<open>\<^verbatim>\<open>p in s\<close> on two strs: \<open>p\<close> occurs in \<open>s\<close>.\<close>

fun contains_str :: "string \<Rightarrow> string \<Rightarrow> bool" where
  "contains_str p [] = (p = [])"
| "contains_str p (c # cs) = (take (length p) (c # cs) = p \<or> contains_str p cs)"

text \<open>\<^verbatim>\<open>o[key]\<close> on a dict.\<close>

definition getitem :: "(string \<times> json) list \<Rightarrow> string \<Rightarrow> error + json" where
  "getitem d key = (case map_of d key of None \<Rightarrow> Inl (KeyError key) | Some v \<Rightarrow> Inr v)"

text \<open>The stream of a message used as a dict key: a list or a dict is unhashable.\<close>

fun stream_key :: "json \<Rightarrow> error + string" where
  "stream_key (JStr n) = Inr n"
| "stream_key (JList xs) = Inl TypeError"
| "stream_key (JObj d) = Inl TypeError"
| "stream_key v = Inl OutsideModel"

text \<open>The str that \<^verbatim>\<open>csv.writer\<close> makes of a value before it writes it: the empty str
  for \<^verbatim>\<open>None\<close>, a str as it is, \<^verbatim>\<open>str(v)\<close> otherwise.\<close>

definition cell :: "runtime \<Rightarrow> json \<Rightarrow> string" where
  "cell rt v = (case v of JNull \<Rightarrow> [] | _ \<Rightarrow> py_str rt v)"

text \<open>The fields that \<^verbatim>\<open>DictWriter.writerow\<close> hands to the writer, with
  \<^verbatim>\<open>extrasaction='ignore'\<close> and the default \<^verbatim>\<open>restval=''\<close>: one for each field name,
  in their order.\<close>

definition writerow :: "runtime \<Rightarrow> string list \<Rightarrow> (string \<times> json) list \<Rightarrow> string list" where
  "writerow rt fieldnames rowdict =
     map (\<lambda>key. case map_of rowdict key of None \<Rightarrow> [] | Some v \<Rightarrow> cell rt v) fieldnames"

text \<open>The branch \<^verbatim>\<open>t == 'RECORD'\<close> (lines 52 to 90 of the source). On a raise the
  variables are returned as they are at that point.\<close>

definition record_message :: "runtime \<Rightarrow> pstate \<Rightarrow> (string \<times> json) list \<Rightarrow> pstate \<times> error option" where
  "record_message rt s o' =
    (if ''stream'' \<notin> set (keys o') then (s, Some (MissingRequiredKey ''stream''))
     else case getitem o' ''stream'' of Inl e \<Rightarrow> (s, Some e) | Inr sv \<Rightarrow>
     (case stream_key sv of Inl e \<Rightarrow> (s, Some e) | Inr stream \<Rightarrow>
     (case schemas s stream of None \<Rightarrow> (s, Some (RecordBeforeSchema stream)) | Some schema \<Rightarrow>
     (case validators s stream of None \<Rightarrow> (s, Some (KeyError stream)) | Some validator \<Rightarrow>
     (case getitem o' ''record'' of Inl e \<Rightarrow> (s, Some e) | Inr r \<Rightarrow>
     (case validate rt validator r of Some e \<Rightarrow> (s, Some e) | None \<Rightarrow>
        let fname = (case filename s of None \<Rightarrow> stream @ ''.csv'' | Some f \<Rightarrow> f);
            s1 = s\<lparr>filename := Some fname\<rparr>;
            existing = (case files s1 fname of None \<Rightarrow> [] | Some content \<Rightarrow> content);
            file_is_empty = (existing = [])
        in (case r of
              JObj d \<Rightarrow>
                let flattened_record = flatten rt d [] ''__'' in
                (case (if headers s1 stream = None \<and> \<not> file_is_empty then
                         (case csv_first_row rt (delimiter s1) (quotechar s1) existing of
                            Inl e \<Rightarrow> Inl e
                          | Inr first_line \<Rightarrow>
                              Inr (if first_line \<noteq> [] then first_line
                                   else keys flattened_record))
                       else Inr (keys flattened_record)) of
                   Inl e \<Rightarrow> (s1, Some e)
                 | Inr header \<Rightarrow>
                     let s2 = s1\<lparr>headers := (headers s1)(stream \<mapsto> header)\<rparr>;
                         written =
                           (if file_is_empty
                            then csv_row rt (delimiter s2) (quotechar s2) header else [])
                           @ csv_row rt (delimiter s2) (quotechar s2)
                               (writerow rt header flattened_record);
                         s3 = s2\<lparr>files := (files s2)(fname \<mapsto> existing @ written)\<rparr>
                     in (s3\<lparr>state := JNull\<rparr>, None))
            | _ \<Rightarrow> (s1, Some AttributeError))))))))"

text \<open>The branch \<^verbatim>\<open>t == 'STATE'\<close> (lines 92 and 93).\<close>

definition state_message :: "pstate \<Rightarrow> (string \<times> json) list \<Rightarrow> pstate \<times> error option" where
  "state_message s o' =
    (case getitem o' ''value'' of
       Inl e \<Rightarrow> (s, Some e)
     | Inr v \<Rightarrow> (s\<lparr>state := v\<rparr>, None))"

text \<open>The branch \<^verbatim>\<open>t == 'SCHEMA'\<close> (lines 95 to 102). In
  \<^verbatim>\<open>schemas[stream] = o['schema']\<close> the right-hand side is evaluated first; the
  validator is built, and may raise, after the schema is stored and before the
  validator is.\<close>

definition schema_message :: "runtime \<Rightarrow> pstate \<Rightarrow> (string \<times> json) list \<Rightarrow> pstate \<times> error option" where
  "schema_message rt s o' =
    (if ''stream'' \<notin> set (keys o') then (s, Some (MissingRequiredKey ''stream''))
     else case getitem o' ''stream'' of Inl e \<Rightarrow> (s, Some e) | Inr sv \<Rightarrow>
     (case getitem o' ''schema'' of Inl e \<Rightarrow> (s, Some e) | Inr schema \<Rightarrow>
     (case stream_key sv of Inl e \<Rightarrow> (s, Some e) | Inr stream \<Rightarrow>
        let s1 = s\<lparr>schemas := (schemas s)(stream \<mapsto> schema)\<rparr>
        in (case new_validator rt schema of Some e \<Rightarrow> (s1, Some e) | None \<Rightarrow>
              let s2 = s1\<lparr>validators := (validators s1)(stream \<mapsto> schema)\<rparr>
              in if ''key_properties'' \<notin> set (keys o') then (s2, Some KeyPropertiesRequired)
                 else case getitem o' ''key_properties'' of
                        Inl e \<Rightarrow> (s2, Some e)
                      | Inr kp \<Rightarrow>
                          (s2\<lparr>key_properties := (key_properties s2)(stream \<mapsto> kp)\<rparr>,
                           None)))))"

text \<open>
  One turn of the loop on one line. A line is given by what \<^verbatim>\<open>json.loads\<close> makes of it,
  \<open>None\<close> when it raises \<^verbatim>\<open>JSONDecodeError\<close>. On a value that is not a dict,
  \<^verbatim>\<open>'type' not in o\<close> is a membership test on a list, a substring test on a str and a
  \<^verbatim>\<open>TypeError\<close> otherwise; where it finds \<^verbatim>\<open>'type'\<close>, \<^verbatim>\<open>o['type']\<close> raises
  \<^verbatim>\<open>TypeError\<close>.
\<close>

type_synonym line = "json option"

definition step :: "runtime \<Rightarrow> pstate \<Rightarrow> line \<Rightarrow> pstate \<times> error option" where
  "step rt s line =
    (case line of
       None \<Rightarrow> (s, Some JSONDecodeError)
     | Some (JObj o') \<Rightarrow>
         (if ''type'' \<notin> set (keys o') then (s, Some (MissingRequiredKey ''type''))
          else case getitem o' ''type'' of Inl e \<Rightarrow> (s, Some e) | Inr t \<Rightarrow>
            if t = JStr ''RECORD'' then record_message rt s o'
            else if t = JStr ''STATE'' then state_message s o'
            else if t = JStr ''SCHEMA'' then schema_message rt s o'
            else (s, Some (UnknownMessageType t)))
     | Some (JList xs) \<Rightarrow>
         (if JStr ''type'' \<notin> set xs then (s, Some (MissingRequiredKey ''type''))
          else (s, Some TypeError))
     | Some (JStr str) \<Rightarrow>
         (if \<not> contains_str ''type'' str then (s, Some (MissingRequiredKey ''type''))
          else (s, Some TypeError))
     | Some _ \<Rightarrow> (s, Some TypeError))"

text \<open>The \<^verbatim>\<open>for\<close> loop: it stops at the first exception.\<close>

fun run :: "runtime \<Rightarrow> pstate \<Rightarrow> line list \<Rightarrow> pstate \<times> error option" where
  "run rt s [] = (s, None)"
| "run rt s (line # lines) =
     (case step rt s line of
        (s', Some e) \<Rightarrow> (s', Some e)
      | (s', None) \<Rightarrow> run rt s' lines)"

text \<open>The parameters, and the variables before the loop (lines 34 to 38), over the
  files \<open>fs\<close> on disk.\<close>

definition initial :: "string option \<Rightarrow> char \<Rightarrow> char \<Rightarrow> (string \<rightharpoonup> string) \<Rightarrow> pstate" where
  "initial fname dl qc fs =
     \<lparr>filename = fname, delimiter = dl, quotechar = qc, state = JNull, schemas = Map.empty,
      key_properties = Map.empty, headers = Map.empty, validators = Map.empty, files = fs\<rparr>"

text \<open>
  \<^verbatim>\<open>persist_lines(filename, delimiter, quotechar, lines)\<close> run over the files \<open>fs\<close>: the
  files afterwards, and the exception raised or the value returned.
\<close>

definition persist_lines ::
  "runtime \<Rightarrow> (string \<rightharpoonup> string) \<Rightarrow> string option \<Rightarrow> char \<Rightarrow> char \<Rightarrow> line list
     \<Rightarrow> (string \<rightharpoonup> string) \<times> (error + json)" where
  "persist_lines rt fs fname dl qc lines =
     (case run rt (initial fname dl qc fs) lines of
        (s, Some e) \<Rightarrow> (files s, Inl e)
      | (s, None) \<Rightarrow> (files s, Inr (state s)))"

section \<open>Reference definitions\<close>

subsection \<open>The reference flattening\<close>

text \<open>
  The flattening as the specification words it: for each pair in order, an object value
  is flattened and each of its entries is stored under the parent key and the child key
  joined by the two-character separator; a list value is stored as its string
  representation; any other value is stored unchanged. An empty object has no entries,
  so it stores nothing.
\<close>

definition joined :: "string \<Rightarrow> string \<Rightarrow> string" where
  "joined parent child = parent @ ''__'' @ child"

function flatten_ref :: "runtime \<Rightarrow> (string \<times> json) list \<Rightarrow> (string \<times> json) list"
  and flatten_ref_entries :: "runtime \<Rightarrow> (string \<times> json) list \<Rightarrow> (string \<times> json) list"
where
  "flatten_ref rt d = dict (flatten_ref_entries rt d)"
| "flatten_ref_entries rt [] = []"
| "flatten_ref_entries rt ((k, v) # rest) =
     (case v of
        JObj d' \<Rightarrow> map (\<lambda>(k', v'). (joined k k', v')) (flatten_ref rt d')
      | JList xs \<Rightarrow> [(k, JStr (py_str rt (JList xs)))]
      | _ \<Rightarrow> [(k, v)])
     @ flatten_ref_entries rt rest"
  by pat_completeness auto
termination
  by (relation "measure (\<lambda>x. case x of
        Inl (rt, d) \<Rightarrow> Suc (size_list (size_prod (\<lambda>_. 0) size) d)
      | Inr (rt, d) \<Rightarrow> size_list (size_prod (\<lambda>_. 0) size) d)") auto

text \<open>An entry with its key put under a parent key.\<close>

definition prefixed :: "string \<Rightarrow> string \<times> 'v \<Rightarrow> string \<times> 'v" where
  "prefixed p = (\<lambda>(k, v). (joined p k, v))"

subsection \<open>Messages and the checkpoint the specification expects\<close>

definition field :: "string \<Rightarrow> line \<Rightarrow> json option" where
  "field key line = (case line of Some (JObj o') \<Rightarrow> map_of o' key | _ \<Rightarrow> None)"

definition is_record :: "line \<Rightarrow> bool" where
  "is_record line = (field ''type'' line = Some (JStr ''RECORD''))"

definition is_state :: "line \<Rightarrow> bool" where
  "is_state line = (field ''type'' line = Some (JStr ''STATE''))"

definition is_schema_for :: "string \<Rightarrow> line \<Rightarrow> bool" where
  "is_schema_for n line =
     (field ''type'' line = Some (JStr ''SCHEMA'') \<and> field ''stream'' line = Some (JStr n))"

definition carried_value :: "line \<Rightarrow> json" where
  "carried_value line = (case field ''value'' line of Some v \<Rightarrow> v | None \<Rightarrow> JNull)"

text \<open>
  The value carried by the most recent STATE message that has no RECORD message after
  it, and null when there is none: the lines after the last RECORD, latest first, are
  searched for a STATE message.
\<close>

definition final_checkpoint :: "line list \<Rightarrow> json" where
  "final_checkpoint lines =
     (case filter is_state (takeWhile (\<lambda>l. \<not> is_record l) (rev lines)) of
        [] \<Rightarrow> JNull
      | m # _ \<Rightarrow> carried_value m)"

subsection \<open>Concrete inputs\<close>

text \<open>
  A csv module for the examples, after the one of CPython with the defaults the program
  leaves in place (minimal quoting, doubled quote characters, \<^verbatim>\<open>\r\n\<close> after each
  row, no escape character, not strict). The writer puts a field between quote
  characters when it holds the delimiter, the quote character or a line break, and
  writes a row of one empty field as two quote characters. The reader goes through the
  content character by character, as the parser of the module does, up to the first
  line break outside a quoted field.
\<close>

definition crlf :: string where
  "crlf = [CHR 0x0D, CHR 0x0A]"

definition example_field :: "char \<Rightarrow> char \<Rightarrow> string \<Rightarrow> string" where
  "example_field dl qc f =
     (if list_ex (\<lambda>c. c = dl \<or> c = qc \<or> c = CHR 0x0D \<or> c = CHR 0x0A) f
      then [qc] @ concat (map (\<lambda>c. if c = qc then [qc, qc] else [c]) f) @ [qc]
      else f)"

definition example_csv_row :: "char \<Rightarrow> char \<Rightarrow> string list \<Rightarrow> string" where
  "example_csv_row dl qc row =
     (if row = [[]] then [qc, qc] else join [dl] (map (example_field dl qc) row)) @ crlf"

datatype parser_state = StartRecord | StartField | InField | InQuotedField | QuoteInQuotedField

fun example_scan ::
  "char \<Rightarrow> char \<Rightarrow> parser_state \<Rightarrow> string \<Rightarrow> string list \<Rightarrow> string \<Rightarrow> string list" where
  "example_scan dl qc st cur row [] =
     (if st = StartRecord then row else row @ [cur])"
| "example_scan dl qc st cur row (c # cs) =
     (if st = InQuotedField then
        (if c = qc then example_scan dl qc QuoteInQuotedField cur row cs
         else example_scan dl qc InQuotedField (cur @ [c]) row cs)
      else if c = CHR 0x0D \<or> c = CHR 0x0A then
        (if st = StartRecord then row else row @ [cur])
      else if st = QuoteInQuotedField \<and> c = qc then
        example_scan dl qc InQuotedField (cur @ [c]) row cs
      else if c = dl then example_scan dl qc StartField [] (row @ [cur]) cs
      else if (st = StartRecord \<or> st = StartField) \<and> c = qc then
        example_scan dl qc InQuotedField cur row cs
      else example_scan dl qc InField (cur @ [c]) row cs)"

definition example_first_row :: "char \<Rightarrow> char \<Rightarrow> string \<Rightarrow> error + string list" where
  "example_first_row dl qc content = Inr (example_scan dl qc StartRecord [] [] content)"

text \<open>
  A runtime for the examples: building a validator raises on a schema that is not an
  object (the constructor reads the schema's \<^verbatim>\<open>id\<close> with \<^verbatim>\<open>schema.get\<close>), its
  validators accept every instance, a str prints between single quotes (as Python prints
  a str with no quote, backslash or control character in it), and no example prints a
  float.
\<close>

definition example_runtime :: runtime where
  "example_runtime =
     \<lparr>new_validator = (\<lambda>schema. if is_obj schema then None else Some AttributeError),
      validate = (\<lambda>schema instance. None),
      repr_str = (\<lambda>s. CHR 0x27 # s @ [CHR 0x27]),
      repr_float = (\<lambda>f. []),
      csv_first_row = example_first_row,
      csv_row = example_csv_row\<rparr>"

definition schema_line :: "string \<Rightarrow> line" where
  "schema_line n =
     Some (JObj [(''type'', JStr ''SCHEMA''), (''stream'', JStr n),
                 (''schema'', JObj []), (''key_properties'', JList [])])"

definition record_line :: "string \<Rightarrow> (string \<times> json) list \<Rightarrow> line" where
  "record_line n d =
     Some (JObj [(''type'', JStr ''RECORD''), (''stream'', JStr n), (''record'', JObj d)])"

definition state_line :: "json \<Rightarrow> line" where
  "state_line v = Some (JObj [(''type'', JStr ''STATE''), (''value'', v)])"

section \<open>Properties of flatten\<close>

lemmas evaluation =
  example_runtime_def schema_line_def record_line_def state_line_def persist_lines_def
  initial_def step_def record_message_def schema_message_def state_message_def getitem_def
  keys_def writerow_def cell_def py_str_def dict_def repr_int_def digit_def joined_def Let_def
  example_csv_row_def example_field_def example_first_row_def crlf_def

subsection \<open>Keys under a parent key\<close>

lemma joined_assoc: "joined (joined p k) c = joined p (joined k c)"
  by (simp add: joined_def)

lemma joined_inject: "joined p a = joined p b \<longleftrightarrow> a = b"
  by (simp add: joined_def)

lemma joined_not_Nil: "joined p k \<noteq> []"
  by (simp add: joined_def)

lemma dict_set_prefixed:
  "dict_set (map (prefixed p) d) (joined p k) v = map (prefixed p) (dict_set d k v)"
  by (induction d) (auto simp: prefixed_def joined_inject)

lemma foldl_dict_set_prefixed:
  "foldl (\<lambda>d (k, v). dict_set d k v) (map (prefixed p) acc) (map (prefixed p) xs)
     = map (prefixed p) (foldl (\<lambda>d (k, v). dict_set d k v) acc xs)"
proof (induction xs arbitrary: acc)
  case Nil
  show ?case by simp
next
  case (Cons x xs)
  obtain k v where x: "x = (k, v)" by (cases x)
  have px: "prefixed p x = (joined p k, v)" by (simp add: x prefixed_def)
  show ?case using Cons.IH [of "dict_set acc k v"]
    by (simp add: px dict_set_prefixed) (simp add: x)
qed

lemma dict_prefixed: "dict (map (prefixed p) xs) = map (prefixed p) (dict xs)"
  using foldl_dict_set_prefixed [of p "[]" xs] by (simp add: dict_def)

lemma prefixed_prefixed:
  "map (prefixed p) (map (prefixed k) xs) = map (prefixed (joined p k)) xs"
  by (induction xs) (auto simp: prefixed_def joined_assoc)

text \<open>Below the top level the parent key is never empty, and the program's top-down
  keys are the reference's bottom-up keys.\<close>

lemma flatten_nested:
  shows "p \<noteq> [] \<longrightarrow> sep = ''__'' \<longrightarrow>
           flatten rt d p sep = map (prefixed p) (flatten_ref rt d)"
    and "p \<noteq> [] \<longrightarrow> sep = ''__'' \<longrightarrow>
           flatten_items rt d p sep = map (prefixed p) (flatten_ref_entries rt d)"
proof (induction rt d p sep and rt d p sep rule: flatten_flatten_items.induct)
  case (1 rt d parent_key sep)
  then show ?case by (simp add: dict_prefixed)
next
  case (2 rt parent_key sep)
  show ?case by simp
next
  case (3 rt k v rest parent_key sep)
  show ?case
  proof (intro impI)
    assume p: "parent_key \<noteq> []" and sep: "sep = ''__''"
    have nk: "(if parent_key \<noteq> [] then parent_key @ sep @ k else k) = joined parent_key k"
      using p sep by (simp add: joined_def)
    have rest: "flatten_items rt rest parent_key sep
                  = map (prefixed parent_key) (flatten_ref_entries rt rest)"
      using "3.IH"(2) [OF nk [symmetric]] p sep nk by simp
    show "flatten_items rt ((k, v) # rest) parent_key sep
            = map (prefixed parent_key) (flatten_ref_entries rt ((k, v) # rest))"
    proof (cases v)
      case (JObj d')
      have "flatten rt d' (joined parent_key k) sep
              = map (prefixed (joined parent_key k)) (flatten_ref rt d')"
        using "3.IH"(1) [OF nk [symmetric] JObj] sep joined_not_Nil nk by simp
      then show ?thesis using rest JObj nk
        by (simp add: prefixed_prefixed [symmetric] del: flatten.simps) (simp add: prefixed_def)
    qed (use rest nk in \<open>simp_all add: prefixed_def\<close>)
  qed
qed

lemma flatten_items_top:
  "\<forall>(k, v) \<in> set d. is_obj v \<longrightarrow> k \<noteq> []
     \<Longrightarrow> flatten_items rt d [] ''__'' = flatten_ref_entries rt d"
proof (induction d)
  case Nil
  show ?case by simp
next
  case (Cons x d)
  obtain k v where x: "x = (k, v)" by (cases x)
  have rest: "flatten_items rt d [] ''__'' = flatten_ref_entries rt d"
    using Cons by simp
  show ?case
  proof (cases v)
    case (JObj d')
    then have "k \<noteq> []" using Cons.prems x by simp
    then have "flatten rt d' k ''__'' = map (prefixed k) (flatten_ref rt d')"
      using flatten_nested(1) [of k "''__''" rt d'] by simp
    then show ?thesis using rest JObj x
      by (simp del: flatten.simps) (simp add: prefixed_def)
  qed (use rest x in simp_all)
qed

text \<open>
  C6, as stated: for every JSON object, \<open>flatten\<close> equals the reference definition.
  It fails where an object value sits under the empty key at the top level: the program
  joins the parent key only when it is not empty, so the children keep their own names,
  where the reference puts the separator in front of them.
\<close>

theorem flatten_empty_parent_key_counterexample:
  "flatten example_runtime [([], JObj [(''a'', JInt 1)])] [] ''__'' = [(''a'', JInt 1)]
   \<and> flatten_ref example_runtime [([], JObj [(''a'', JInt 1)])] = [(''__a'', JInt 1)]"
  by (simp add: dict_def joined_def)

text \<open>
  C6, amended: for every JSON object in which no top-level field with an object value
  has the empty name, \<open>flatten\<close> (with its default parent key and separator) equals
  the reference definition: object values are recursed into with parent and child keys
  joined by \<open>__\<close>, list values are replaced by their string representation, other
  values are stored unchanged, and an empty object produces no entry.
\<close>

theorem flatten_refines_reference:
  assumes "\<forall>(k, v) \<in> set d. is_obj v \<longrightarrow> k \<noteq> []"
  shows "flatten rt d [] ''__'' = flatten_ref rt d"
  using flatten_items_top [OF assms] by simp

theorem flatten_refines_reference_witness:
  "flatten example_runtime
      [(''a'', JObj [(''b'', JInt 1), (''c'', JObj [])]), (''tags'', JList [JInt 1, JInt 2])]
      [] ''__''
    = [(''a__b'', JInt 1), (''tags'', JStr ''[1, 2]'')]"
  using flatten_refines_reference
    [of "[(''a'', JObj [(''b'', JInt 1), (''c'', JObj [])]), (''tags'', JList [JInt 1, JInt 2])]"
        example_runtime]
  by (simp add: dict_def joined_def py_str_def repr_int_def digit_def)

text \<open>The examples of the specification, on the program itself.\<close>

lemma flatten_nested_example:
  "flatten rt [(''a'', JObj [(''b'', JInt 1), (''c'', JInt 2)])] [] ''__''
     = [(''a__b'', JInt 1), (''a__c'', JInt 2)]"
  by (simp add: dict_def)

lemma flatten_empty_object_example: "flatten rt [(k, JObj [])] [] ''__'' = []"
  by (simp add: dict_def)

lemma flatten_list_example:
  "flatten rt [(''tags'', JList [JInt 1, JInt 2])] [] ''__'' = [(''tags'', JStr ''[1, 2]'')]"
  by (simp add: dict_def py_str_def repr_int_def digit_def)

subsection \<open>Flat objects\<close>

lemma foldl_dict_set_distinct:
  "distinct (map fst (acc @ xs))
     \<Longrightarrow> foldl (\<lambda>d (k, v). dict_set d k v) acc xs = acc @ xs"
proof (induction xs arbitrary: acc)
  case Nil
  show ?case by simp
next
  case (Cons x xs)
  obtain k v where x: "x = (k, v)" by (cases x)
  have fresh: "k \<notin> fst ` set acc" using Cons.prems x by auto
  have set: "dict_set acc k v = acc @ [(k, v)]" using fresh
    by (induction acc) auto
  show ?case using Cons.IH [of "acc @ [(k, v)]"] Cons.prems x set by simp
qed

lemma dict_distinct: "distinct (map fst xs) \<Longrightarrow> dict xs = xs"
  using foldl_dict_set_distinct [of "[]" xs] by (simp add: dict_def)

lemma flatten_items_scalars:
  "\<forall>(k, v) \<in> set d. \<not> is_obj v \<and> \<not> is_list v \<Longrightarrow> flatten_items rt d [] sep = d"
proof (induction d)
  case Nil
  show ?case by simp
next
  case (Cons x d)
  obtain k v where x: "x = (k, v)" by (cases x)
  have "\<not> is_obj v" "\<not> is_list v" using Cons.prems x by auto
  then show ?case using Cons x by (cases v) simp_all
qed

text \<open>
  C8, as stated: \<open>flatten\<close> returns every object with no nested object value
  unchanged. It fails on a list value, which has no nested object and is replaced by its
  string representation.
\<close>

theorem flatten_list_value_counterexample:
  "flatten example_runtime [(''tags'', JList [JInt 1, JInt 2])] [] ''__''
     = [(''tags'', JStr ''[1, 2]'')]
   \<and> flatten example_runtime [(''tags'', JList [JInt 1, JInt 2])] [] ''__''
     \<noteq> [(''tags'', JList [JInt 1, JInt 2])]"
  by (simp add: dict_def py_str_def repr_int_def digit_def)

text \<open>
  C8, amended: for every JSON object (its keys distinct, as in every dict) with no object
  value and no list value, \<open>flatten\<close> returns it unchanged.
\<close>

theorem flatten_scalar_object_unchanged:
  assumes "distinct (keys d)"
    and "\<forall>(k, v) \<in> set d. \<not> is_obj v \<and> \<not> is_list v"
  shows "flatten rt d [] ''__'' = d"
  using assms flatten_items_scalars [OF assms(2)] by (simp add: dict_distinct keys_def)

theorem flatten_scalar_object_unchanged_witness:
  "flatten example_runtime
     [(''id'', JInt 7), (''name'', JStr ''x''), (''ok'', JBool True), (''none'', JNull)] [] ''__''
   = [(''id'', JInt 7), (''name'', JStr ''x''), (''ok'', JBool True), (''none'', JNull)]"
  using flatten_scalar_object_unchanged
    [of "[(''id'', JInt 7), (''name'', JStr ''x''), (''ok'', JBool True), (''none'', JNull)]"
        example_runtime]
  by (simp add: keys_def)

section \<open>Properties of persist_lines\<close>

lemma in_keys_iff: "k \<in> set (keys d) \<longleftrightarrow> map_of d k \<noteq> None"
  by (simp add: keys_def map_of_eq_None_iff)

lemma getitem_Some: "map_of d k = Some v \<Longrightarrow> getitem d k = Inr v"
  by (simp add: getitem_def)

lemma getitem_None: "map_of d k = None \<Longrightarrow> getitem d k = Inl (KeyError k)"
  by (simp add: getitem_def)

lemma run_append:
  "run rt s (xs @ ys) =
     (case run rt s xs of (s', Some e) \<Rightarrow> (s', Some e) | (s', None) \<Rightarrow> run rt s' ys)"
  by (induction xs arbitrary: s) (auto split: prod.splits option.splits)

text \<open>A line that is processed without an exception is a dict with a type.\<close>

lemma step_ok_message:
  assumes "step rt s l = (s', None)"
  obtains o' t where "l = Some (JObj o')" and "map_of o' ''type'' = Some t"
  using assms
  by (auto simp: step_def getitem_def split: option.splits json.splits if_splits)

subsection \<open>The checkpoint\<close>

lemma record_message_state:
  "record_message rt s o' = (s', None) \<Longrightarrow> state s' = JNull"
  by (auto simp: record_message_def Let_def
      split: if_splits sum.splits option.splits json.splits)

lemma state_message_state:
  "state_message s o' = (s', None) \<Longrightarrow>
     state s' = (case map_of o' ''value'' of Some v \<Rightarrow> v | None \<Rightarrow> JNull)"
  by (auto simp: state_message_def getitem_def split: option.splits)

lemma schema_message_state:
  "schema_message rt s o' = (s', None) \<Longrightarrow> state s' = state s"
  by (auto simp: schema_message_def Let_def
      split: if_splits sum.splits option.splits)

lemma step_state:
  assumes "step rt s l = (s', None)"
  shows "state s' =
           (if is_record l then JNull else if is_state l then carried_value l else state s)"
proof -
  from assms obtain o' t where l: "l = Some (JObj o')" and t: "map_of o' ''type'' = Some t"
    by (rule step_ok_message)
  have g: "getitem o' ''type'' = Inr t" "''type'' \<in> set (keys o')"
    using t by (simp_all add: getitem_Some in_keys_iff)
  have f: "field ''type'' l = Some t" "field ''value'' l = map_of o' ''value''"
    using l t by (simp_all add: field_def)
  show ?thesis
  proof (cases "t = JStr ''RECORD''")
    case True
    then show ?thesis using assms l g f
      by (simp add: step_def is_record_def record_message_state)
  next
    case nr: False
    show ?thesis
    proof (cases "t = JStr ''STATE''")
      case True
      then show ?thesis using assms l g f nr
        by (simp add: step_def is_record_def is_state_def carried_value_def state_message_state)
    next
      case False
      then show ?thesis using assms l g f nr
        by (auto simp: step_def is_record_def is_state_def schema_message_state split: if_splits)
    qed
  qed
qed

lemma run_state:
  "run rt s lines = (s', None) \<Longrightarrow>
     state s' = (case filter is_state (takeWhile (\<lambda>l. \<not> is_record l) (rev lines)) of
                   [] \<Rightarrow> if \<exists>l \<in> set lines. is_record l then JNull else state s
                 | m # _ \<Rightarrow> carried_value m)"
proof (induction lines arbitrary: s' rule: rev_induct)
  case Nil
  then show ?case by simp
next
  case (snoc l lines)
  from snoc.prems obtain s1 where pre: "run rt s lines = (s1, None)"
    and last: "step rt s1 l = (s', None)"
    by (auto simp: run_append split: prod.splits option.splits)
  note ih = snoc.IH [OF pre]
  note st = step_state [OF last]
  show ?case
  proof (cases "is_record l")
    case True
    then show ?thesis using st by simp
  next
    case nr: False
    show ?thesis
    proof (cases "is_state l")
      case True
      then show ?thesis using st nr by simp
    next
      case False
      then show ?thesis using st nr ih by (auto split: list.splits)
    qed
  qed
qed

text \<open>
  C3: when the whole input is processed without an exception, \<open>persist_lines\<close>
  returns the value carried by the most recent STATE message that has no RECORD message
  after it, and null when there is no such STATE message.
\<close>

theorem persist_lines_returns_final_checkpoint:
  assumes "persist_lines rt fs fname dl qc lines = (fs', Inr v)"
  shows "v = final_checkpoint lines"
proof -
  from assms obtain s' where r: "run rt (initial fname dl qc fs) lines = (s', None)"
    and v: "v = state s'"
    by (auto simp: persist_lines_def split: prod.splits option.splits)
  show ?thesis using run_state [OF r] v
    by (simp add: final_checkpoint_def initial_def split: list.splits)
qed

theorem persist_lines_returns_final_checkpoint_witness:
  "persist_lines example_runtime Map.empty None CHR '','' CHR 0x22
     [schema_line ''s'', record_line ''s'' [(''a'', JInt 1)], state_line (JInt 5)]
     = ([''s.csv'' \<mapsto> (''a'' @ crlf @ ''1'' @ crlf)], Inr (JInt 5))
   \<and> final_checkpoint
       [schema_line ''s'', record_line ''s'' [(''a'', JInt 1)], state_line (JInt 5)] = JInt 5"
proof -
  have r: "persist_lines example_runtime Map.empty None CHR '','' CHR 0x22
     [schema_line ''s'', record_line ''s'' [(''a'', JInt 1)], state_line (JInt 5)]
     = ([''s.csv'' \<mapsto> (''a'' @ crlf @ ''1'' @ crlf)], Inr (JInt 5))"
    by (simp add: evaluation)
  show ?thesis using persist_lines_returns_final_checkpoint [OF r] r by simp
qed

text \<open>The two runs of the specification's checkpoint example: a trailing STATE is
  returned, a trailing RECORD resets the checkpoint.\<close>

lemma checkpoint_reset_example:
  "persist_lines example_runtime Map.empty None CHR '','' CHR 0x22
     [schema_line ''s'', state_line (JInt 5), record_line ''s'' [(''a'', JInt 1)]]
     = ([''s.csv'' \<mapsto> (''a'' @ crlf @ ''1'' @ crlf)], Inr JNull)"
  by (simp add: evaluation)

text \<open>
  C4, as stated: a STATE message with no \<open>value\<close> field is tolerated and the
  checkpoint becomes null. It is not: the run ends in a \<open>KeyError\<close>.
\<close>

theorem state_without_value_counterexample:
  "persist_lines example_runtime Map.empty None CHR '','' CHR 0x22
     [Some (JObj [(''type'', JStr ''STATE'')])]
     = (Map.empty, Inl (KeyError ''value''))"
  by (simp add: evaluation)

text \<open>
  C4, amended: for every STATE message lacking the \<open>value\<close> field, the run
  aborts at that message with a missing-key error for \<open>value\<close>, and the checkpoint
  and every other variable are left as they were.
\<close>

theorem state_without_value_raises_KeyError:
  assumes "map_of o' ''type'' = Some (JStr ''STATE'')"
    and "map_of o' ''value'' = None"
  shows "step rt s (Some (JObj o')) = (s, Some (KeyError ''value''))"
  using assms
  by (simp add: step_def state_message_def in_keys_iff getitem_Some getitem_None)

theorem state_without_value_raises_KeyError_witness:
  "step example_runtime (initial None CHR '','' CHR 0x22 Map.empty) (Some (JObj [(''type'', JStr ''STATE'')]))
     = (initial None CHR '','' CHR 0x22 Map.empty, Some (KeyError ''value''))"
  using state_without_value_raises_KeyError
    [of "[(''type'', JStr ''STATE'')]" example_runtime "initial None CHR '','' CHR 0x22 Map.empty"]
  by simp

subsection \<open>Registered streams\<close>

lemma record_message_schemas:
  "record_message rt s o' = (s', e) \<Longrightarrow> schemas s' = schemas s \<and> validators s' = validators s"
  by (auto simp: record_message_def Let_def
      split: if_splits sum.splits option.splits json.splits)

lemma state_message_schemas:
  "state_message s o' = (s', e) \<Longrightarrow> schemas s' = schemas s \<and> validators s' = validators s"
  by (auto simp: state_message_def split: sum.splits)

lemma schema_message_schemas:
  "schema_message rt s o' = (s', None) \<Longrightarrow> map_of o' ''stream'' \<noteq> Some (JStr n)
     \<Longrightarrow> schemas s' n = schemas s n"
  by (auto simp: schema_message_def Let_def getitem_def
      split: if_splits sum.splits option.splits elim!: stream_key.elims)

lemma schema_message_registers:
  "schema_message rt s o' = (s', None) \<Longrightarrow> map_of o' ''stream'' = Some (JStr n)
     \<Longrightarrow> schemas s' n \<noteq> None"
  by (auto simp: schema_message_def Let_def getitem_def
      split: if_splits sum.splits option.splits)

lemma schema_message_keeps:
  "schema_message rt s o' = (s', e) \<Longrightarrow> schemas s n \<noteq> None \<Longrightarrow> schemas s' n \<noteq> None"
  by (auto simp: schema_message_def Let_def
      split: if_splits sum.splits option.splits)

lemma schema_message_validators:
  "schema_message rt s o' = (s', None) \<Longrightarrow> schemas s n \<noteq> None \<longrightarrow> validators s n \<noteq> None
     \<Longrightarrow> schemas s' n \<noteq> None \<longrightarrow> validators s' n \<noteq> None"
  by (auto simp: schema_message_def Let_def
      split: if_splits sum.splits option.splits)

lemma step_schemas:
  assumes "step rt s l = (s', None)" and "\<not> is_schema_for n l"
  shows "schemas s' n = schemas s n"
proof -
  from assms(1) obtain o' t where l: "l = Some (JObj o')" and t: "map_of o' ''type'' = Some t"
    by (rule step_ok_message)
  have g: "getitem o' ''type'' = Inr t" "''type'' \<in> set (keys o')"
    using t by (simp_all add: getitem_Some in_keys_iff)
  have "t = JStr ''SCHEMA'' \<Longrightarrow> map_of o' ''stream'' \<noteq> Some (JStr n)"
    using assms(2) l t by (simp add: is_schema_for_def field_def)
  then show ?thesis using assms(1) l g
    by (auto simp: step_def split: if_splits
        dest: record_message_schemas state_message_schemas schema_message_schemas)
qed

lemma step_registers:
  assumes "step rt s l = (s', None)" and "is_schema_for n l \<or> schemas s n \<noteq> None"
  shows "schemas s' n \<noteq> None"
proof -
  from assms(1) obtain o' t where l: "l = Some (JObj o')" and t: "map_of o' ''type'' = Some t"
    by (rule step_ok_message)
  have g: "getitem o' ''type'' = Inr t" "''type'' \<in> set (keys o')"
    using t by (simp_all add: getitem_Some in_keys_iff)
  show ?thesis
  proof (cases "is_schema_for n l")
    case True
    then have "t = JStr ''SCHEMA''" "map_of o' ''stream'' = Some (JStr n)"
      using l t by (simp_all add: is_schema_for_def field_def)
    then show ?thesis using assms(1) l g
      by (auto simp: step_def dest: schema_message_registers)
  next
    case False
    then have "schemas s n \<noteq> None" using assms(2) by simp
    then show ?thesis using assms(1) l g
      by (auto simp: step_def split: if_splits
          dest: record_message_schemas state_message_schemas schema_message_keeps [where n = n])
  qed
qed

lemma run_schemas:
  "run rt s lines = (s', None) \<Longrightarrow> \<forall>l \<in> set lines. \<not> is_schema_for n l
     \<Longrightarrow> schemas s' n = schemas s n"
proof (induction lines arbitrary: s)
  case Nil
  then show ?case by simp
next
  case (Cons l lines)
  from Cons.prems(1) obtain s1 where a: "step rt s l = (s1, None)"
    and b: "run rt s1 lines = (s', None)"
    by (auto split: prod.splits option.splits)
  show ?case using Cons.IH [OF b] step_schemas [OF a, of n] Cons.prems(2) by simp
qed

lemma run_registers:
  "run rt s lines = (s', None) \<Longrightarrow> (\<exists>l \<in> set lines. is_schema_for n l) \<or> schemas s n \<noteq> None
     \<Longrightarrow> schemas s' n \<noteq> None"
proof (induction lines arbitrary: s)
  case Nil
  then show ?case by simp
next
  case (Cons l lines)
  from Cons.prems(1) obtain s1 where a: "step rt s l = (s1, None)"
    and b: "run rt s1 lines = (s', None)"
    by (auto split: prod.splits option.splits)
  show ?case
  proof (cases "is_schema_for n l \<or> schemas s n \<noteq> None")
    case True
    then have "schemas s1 n \<noteq> None" by (rule step_registers [OF a])
    then show ?thesis using Cons.IH [OF b] by simp
  next
    case False
    then have "\<exists>l \<in> set lines. is_schema_for n l" using Cons.prems(2) by auto
    then show ?thesis using Cons.IH [OF b] by simp
  qed
qed

lemma step_validators:
  assumes "step rt s l = (s', None)" and "schemas s n \<noteq> None \<longrightarrow> validators s n \<noteq> None"
  shows "schemas s' n \<noteq> None \<longrightarrow> validators s' n \<noteq> None"
  using assms
  by (auto simp: step_def split: option.splits json.splits if_splits sum.splits
      dest: record_message_schemas state_message_schemas
      dest!: schema_message_validators [where n = n])

lemma run_validators:
  "run rt s lines = (s', None) \<Longrightarrow> schemas s n \<noteq> None \<longrightarrow> validators s n \<noteq> None
     \<Longrightarrow> schemas s' n \<noteq> None \<longrightarrow> validators s' n \<noteq> None"
proof (induction lines arbitrary: s)
  case Nil
  then show ?case by simp
next
  case (Cons l lines)
  from Cons.prems(1) obtain s1 where a: "step rt s l = (s1, None)"
    and b: "run rt s1 lines = (s', None)"
    by (auto split: prod.splits option.splits)
  show ?case using Cons.IH [OF b step_validators [OF a Cons.prems(2)]] .
qed

text \<open>A run over a prefix that ends without an exception, seen from \<open>persist_lines\<close>.\<close>

lemma persist_lines_prefix:
  assumes "persist_lines rt fs fname dl qc pre = (fs', Inr v)"
  obtains s where "run rt (initial fname dl qc fs) pre = (s, None)" and "files s = fs'"
  using assms by (auto simp: persist_lines_def split: prod.splits option.splits)

lemma persist_lines_abort:
  assumes "run rt (initial fname dl qc fs) pre = (s, None)"
    and "step rt s l = (s, Some e)"
  shows "persist_lines rt fs fname dl qc (pre @ l # post) = (files s, Inl e)"
  using assms by (simp add: persist_lines_def run_append)

text \<open>
  C7: a RECORD message for a stream for which no SCHEMA message came before it in the run
  ends the run in the program's own exception ("a record for stream ... was encountered
  before a corresponding schema"), and the files are what they were after the messages
  before it: no header and no row is written for it.
\<close>

theorem record_before_schema_fails:
  assumes "persist_lines rt fs fname dl qc pre = (fs', Inr v)"
    and "\<forall>l \<in> set pre. \<not> is_schema_for n l"
    and "map_of o' ''type'' = Some (JStr ''RECORD'')"
    and "map_of o' ''stream'' = Some (JStr n)"
  shows "persist_lines rt fs fname dl qc (pre @ Some (JObj o') # post)
           = (fs', Inl (RecordBeforeSchema n))"
proof -
  from assms(1) obtain s where r: "run rt (initial fname dl qc fs) pre = (s, None)"
    and f: "files s = fs'"
    by (rule persist_lines_prefix)
  have "schemas s n = None"
    using run_schemas [OF r assms(2)] by (simp add: initial_def)
  then have "step rt s (Some (JObj o')) = (s, Some (RecordBeforeSchema n))"
    using assms(3,4)
    by (simp add: step_def record_message_def in_keys_iff getitem_Some)
  then show ?thesis using persist_lines_abort [OF r] f by simp
qed

theorem record_before_schema_fails_witness:
  "persist_lines example_runtime Map.empty None CHR '','' CHR 0x22
     ([schema_line ''a'', record_line ''a'' [(''x'', JInt 1)]]
        @ Some (JObj [(''type'', JStr ''RECORD''), (''stream'', JStr ''b''),
                      (''record'', JObj [(''y'', JInt 2)])])
        # [state_line (JInt 5)])
     = ([''a.csv'' \<mapsto> (''x'' @ crlf @ ''1'' @ crlf)], Inl (RecordBeforeSchema ''b''))"
proof -
  have r: "persist_lines example_runtime Map.empty None CHR '','' CHR 0x22
      [schema_line ''a'', record_line ''a'' [(''x'', JInt 1)]]
      = ([''a.csv'' \<mapsto> (''x'' @ crlf @ ''1'' @ crlf)], Inr JNull)"
    by (simp add: evaluation)
  have n: "\<forall>l \<in> set [schema_line ''a'', record_line ''a'' [(''x'', JInt 1)]].
             \<not> is_schema_for ''b'' l"
    by (simp add: is_schema_for_def field_def schema_line_def record_line_def)
  show ?thesis
    by (rule record_before_schema_fails [OF r n]) simp_all
qed

text \<open>
  C9: a RECORD message for a stream registered by an earlier SCHEMA message of the run,
  and with no \<open>record\<close> field, ends the run in a \<open>KeyError\<close> for \<open>record\<close>, raised
  where the validator is called, and not in one of the program's own exceptions; nothing
  is written for it.
\<close>

theorem record_without_payload_raises_KeyError:
  assumes "persist_lines rt fs fname dl qc pre = (fs', Inr v)"
    and "\<exists>l \<in> set pre. is_schema_for n l"
    and "map_of o' ''type'' = Some (JStr ''RECORD'')"
    and "map_of o' ''stream'' = Some (JStr n)"
    and "map_of o' ''record'' = None"
  shows "persist_lines rt fs fname dl qc (pre @ Some (JObj o') # post)
           = (fs', Inl (KeyError ''record''))"
proof -
  from assms(1) obtain s where r: "run rt (initial fname dl qc fs) pre = (s, None)"
    and f: "files s = fs'"
    by (rule persist_lines_prefix)
  have sch: "schemas s n \<noteq> None"
    using run_registers [OF r, of n] assms(2) by simp
  have "validators s n \<noteq> None"
    using run_validators [OF r, of n] sch by (simp add: initial_def)
  then have "step rt s (Some (JObj o')) = (s, Some (KeyError ''record''))"
    using sch assms(3-5)
    by (auto simp: step_def record_message_def in_keys_iff getitem_Some getitem_None)
  then show ?thesis using persist_lines_abort [OF r] f by simp
qed

theorem record_without_payload_raises_KeyError_witness:
  "persist_lines example_runtime Map.empty None CHR '','' CHR 0x22
     ([schema_line ''a'']
        @ Some (JObj [(''type'', JStr ''RECORD''), (''stream'', JStr ''a'')])
        # [state_line (JInt 5)])
     = (Map.empty, Inl (KeyError ''record''))"
proof -
  have r: "persist_lines example_runtime Map.empty None CHR '','' CHR 0x22 [schema_line ''a'']
             = (Map.empty, Inr JNull)"
    by (simp add: evaluation)
  have n: "\<exists>l \<in> set [schema_line ''a'']. is_schema_for ''a'' l"
    by (simp add: is_schema_for_def field_def schema_line_def)
  show ?thesis
    by (rule record_without_payload_raises_KeyError [OF r n]) simp_all
qed




subsection \<open>Headers and files\<close>

text \<open>What the first RECORD of a stream does on a file that is not empty and whose first
  row is not empty: the fields are those of the first row, in its order, no header is
  written, and the text of the row goes at the end of the content.\<close>

lemma first_record_reuses_file_header:
  assumes "map_of o' ''type'' = Some (JStr ''RECORD'')"
    and "map_of o' ''stream'' = Some (JStr n)"
    and "map_of o' ''record'' = Some (JObj d)"
    and "schemas s n = Some sch"
    and "validators s n = Some vsch"
    and "validate rt vsch (JObj d) = None"
    and "headers s n = None"
    and "fname = (case filename s of None \<Rightarrow> n @ ''.csv'' | Some f \<Rightarrow> f)"
    and "files s fname = Some content"
    and "content \<noteq> []"
    and "csv_first_row rt (delimiter s) (quotechar s) content = Inr first_line"
    and "first_line \<noteq> []"
  shows "step rt s (Some (JObj o'))
           = (s\<lparr>filename := Some fname,
                headers := (headers s)(n \<mapsto> first_line),
                files := (files s)(fname \<mapsto>
                  content @ csv_row rt (delimiter s) (quotechar s)
                              (writerow rt first_line (flatten rt d [] ''__''))),
                state := JNull\<rparr>, None)"
  using assms
  by (simp add: step_def record_message_def in_keys_iff getitem_Some Let_def del: flatten.simps)

text \<open>
  C5: every row appended to a file that was there before the run is to be written
  against the header on the file's first line. In this run of the program, on a file
  that holds the header \<open>id,note\<close>, only the first RECORD is: the second RECORD finds a
  header held for the stream, takes the other branch and derives the header from its
  own field names, so its row is \<open>y,8\<close>; against the header of the file it is \<open>8,\<close>.
\<close>

theorem later_record_leaves_file_header:
  "persist_lines example_runtime [''s.csv'' \<mapsto> ''id,note'' @ crlf] None CHR '','' CHR 0x22
     [schema_line ''s'', record_line ''s'' [(''name'', JStr ''x''), (''id'', JInt 7)],
      record_line ''s'' [(''name'', JStr ''y''), (''id'', JInt 8)]]
     = ([''s.csv'' \<mapsto> (''id,note'' @ crlf @ ''7,'' @ crlf @ ''y,8'' @ crlf)], Inr JNull)
   \<and> example_first_row CHR '','' CHR 0x22 (''id,note'' @ crlf) = Inr [''id'', ''note'']
   \<and> example_csv_row CHR '','' CHR 0x22
         (writerow example_runtime [''id'', ''note'']
            (flatten example_runtime [(''name'', JStr ''y''), (''id'', JInt 8)] [] ''__''))
       = ''8,'' @ crlf"
  by (simp add: evaluation)

text \<open>
  C1: with no output file given, the rows of each stream are to land in that stream's
  own file. In this run of the program they do not: the first RECORD sets the file name
  to \<open>a.csv\<close> and the variable keeps it, so the RECORD of stream \<open>b\<close> is written to
  \<open>a.csv\<close>, against that file's header (one empty field, written as two quote
  characters), and \<open>b.csv\<close> is never created.
\<close>

theorem second_stream_lands_in_first_file:
  "persist_lines example_runtime Map.empty None CHR '','' CHR 0x22
     [schema_line ''a'', schema_line ''b'',
      record_line ''a'' [(''x'', JInt 1)], record_line ''b'' [(''y'', JInt 2)]]
   = ([''a.csv'' \<mapsto> (''x'' @ crlf @ ''1'' @ crlf @ [CHR 0x22, CHR 0x22] @ crlf)],
      Inr JNull)"
  by (simp add: evaluation)

text \<open>
  C2: the rows of a stream are to stay aligned to the header established by its first
  RECORD. In this run of the program they do not: the second RECORD finds a header held
  for the stream, takes the other branch and derives the header again from its own field
  names, so its row is \<open>3,4\<close> under the header \<open>a,b\<close>; aligned to that header it is
  \<open>,3\<close>, the field \<open>a\<close> empty and the field \<open>c\<close> dropped.
\<close>

theorem later_record_rederives_header:
  "persist_lines example_runtime Map.empty None CHR '','' CHR 0x22
     [schema_line ''s'', record_line ''s'' [(''a'', JInt 1), (''b'', JInt 2)],
      record_line ''s'' [(''b'', JInt 3), (''c'', JInt 4)]]
     = ([''s.csv'' \<mapsto> (''a,b'' @ crlf @ ''1,2'' @ crlf @ ''3,4'' @ crlf)], Inr JNull)
   \<and> example_csv_row CHR '','' CHR 0x22
         (writerow example_runtime [''a'', ''b'']
            (flatten example_runtime [(''b'', JInt 3), (''c'', JInt 4)] [] ''__''))
       = '',3'' @ crlf"
  by (simp add: evaluation)

end
